theory Spec2Isabelle
  imports Main
begin

section \<open>Data model\<close>

text \<open>
  The registry dashboard of \<^verbatim>\<open>RegistrySections.tsx\<close>. An implant record is a
  plain object; the fields kept here are the ones the badges, the registry table's
  selection logic and the comparison table read. The enumerations of the record are string
  unions in the source and strings at run time, so they are strings here, with the
  enumeration as a list of its members. The field \<^verbatim>\<open>id\<close> is written \<open>id'\<close>.
\<close>

record ImplantRecord =
  id' :: string
  patientId :: string
  implantCategory :: string
  surgeryDate :: string
  revisionHistory :: string
  complicationsLogged :: nat
  followUpStatus :: string
  alertLevel :: string
  riskLevel :: string

definition followUpStatus_enum :: "string list" where
  "followUpStatus_enum = [''Scheduled'', ''Overdue'', ''Completed'']"

definition alertLevel_enum :: "string list" where
  "alertLevel_enum = [''stable'', ''review'', ''attention'']"

definition riskLevel_enum :: "string list" where
  "riskLevel_enum = [''Low'', ''Moderate'', ''High'']"

section \<open>Badges\<close>

text \<open>
  Each badge reads its visual treatment from an object literal by a computed key,
  \<^verbatim>\<open>config[level]\<close>. A property read on an object literal finds the literal's own
  property, else a member inherited from \<^verbatim>\<open>Object.prototype\<close>, else it is
  \<^verbatim>\<open>undefined\<close>. Reading a property of \<^verbatim>\<open>undefined\<close> throws a
  \<^verbatim>\<open>TypeError\<close>; reading \<^verbatim>\<open>bg\<close>, \<^verbatim>\<open>border\<close>, \<^verbatim>\<open>color\<close>,
  \<^verbatim>\<open>dot\<close> or \<^verbatim>\<open>text\<close> of an inherited member gives \<^verbatim>\<open>undefined\<close>.
\<close>

datatype js_error = TypeError

datatype 'a js_value = Own 'a | Inherited | Undefined

definition object_prototype_keys :: "string list" where
  "object_prototype_keys =
     [''constructor'', ''__defineGetter__'', ''__defineSetter__'', ''hasOwnProperty'',
      ''__lookupGetter__'', ''__lookupSetter__'', ''isPrototypeOf'',
      ''propertyIsEnumerable'', ''toString'', ''valueOf'', ''__proto__'',
      ''toLocaleString'']"

definition get_property :: "(string \<times> 'a) list \<Rightarrow> string \<Rightarrow> 'a js_value" where
  "get_property obj k =
     (case map_of obj k of
        Some v \<Rightarrow> Own v
      | None \<Rightarrow> if k \<in> set object_prototype_keys then Inherited else Undefined)"

record treatment =
  bg :: string
  border :: string
  color :: string

record alert_treatment = treatment +
  dot :: string
  text_of :: string

text \<open>
  The rendered \<^verbatim>\<open>span\<close>: its inline style and its text. \<open>None\<close> is a style
  property that is \<^verbatim>\<open>undefined\<close>; the border is a template literal, so an undefined
  border colour is spelled into it.
\<close>

record span =
  backgroundColor :: "string option"
  border_style :: string
  color_style :: "string option"
  label :: "string option"

record alert_span = span +
  dot_backgroundColor :: "string option"

definition border_template :: "string option \<Rightarrow> string" where
  "border_template b = ''1px solid '' @ (case b of Some v \<Rightarrow> v | None \<Rightarrow> ''undefined'')"

definition status_map :: "(string \<times> treatment) list" where
  "status_map =
     [(''Scheduled'', \<lparr>bg = ''rgba(67,122,168,0.07)'', border = ''rgba(67,122,168,0.25)'',
                      color = ''var(--thodar-blue)''\<rparr>),
      (''Overdue'', \<lparr>bg = ''rgba(220,38,38,0.07)'', border = ''rgba(220,38,38,0.25)'',
                    color = ''#b91c1c''\<rparr>),
      (''Completed'', \<lparr>bg = ''rgba(22,163,74,0.07)'', border = ''rgba(22,163,74,0.25)'',
                      color = ''#15803d''\<rparr>)]"

definition alert_config :: "(string \<times> alert_treatment) list" where
  "alert_config =
     [(''stable'', \<lparr>bg = ''rgba(22,163,74,0.07)'', border = ''rgba(22,163,74,0.25)'',
                   color = ''#15803d'', dot = ''#16a34a'', text_of = ''Stable Monitoring''\<rparr>),
      (''review'', \<lparr>bg = ''rgba(217,119,6,0.07)'', border = ''rgba(217,119,6,0.25)'',
                   color = ''#b45309'', dot = ''#d97706'', text_of = ''Review Pending''\<rparr>),
      (''attention'', \<lparr>bg = ''rgba(220,38,38,0.07)'', border = ''rgba(220,38,38,0.25)'',
                      color = ''#b91c1c'', dot = ''#dc2626'',
                      text_of = ''Clinical Attention''\<rparr>)]"

definition risk_map :: "(string \<times> treatment) list" where
  "risk_map =
     [(''Low'', \<lparr>bg = ''rgba(22,163,74,0.07)'', border = ''rgba(22,163,74,0.25)'',
                color = ''#15803d''\<rparr>),
      (''Moderate'', \<lparr>bg = ''rgba(217,119,6,0.07)'', border = ''rgba(217,119,6,0.25)'',
                     color = ''#b45309''\<rparr>),
      (''High'', \<lparr>bg = ''rgba(220,38,38,0.07)'', border = ''rgba(220,38,38,0.25)'',
                 color = ''#b91c1c''\<rparr>)]"

text \<open>The \<^verbatim>\<open>span\<close> a badge returns for the looked-up value \<open>c\<close> and the text \<open>t\<close>.\<close>

definition plain_span :: "treatment js_value \<Rightarrow> string \<Rightarrow> js_error + span" where
  "plain_span c t =
     (case c of
        Undefined \<Rightarrow> Inl TypeError
      | Inherited \<Rightarrow>
          Inr \<lparr>backgroundColor = None, border_style = border_template None,
               color_style = None, label = Some t\<rparr>
      | Own v \<Rightarrow>
          Inr \<lparr>backgroundColor = Some (bg v), border_style = border_template (Some (border v)),
               color_style = Some (color v), label = Some t\<rparr>)"

text \<open>\<^verbatim>\<open>const c = map[status] ?? map.Scheduled\<close>: the default applies to a nullish
  lookup only.\<close>

definition StatusBadge :: "string \<Rightarrow> js_error + span" where
  "StatusBadge status =
     (let c = (case get_property status_map status of
                 Undefined \<Rightarrow> get_property status_map ''Scheduled''
               | v \<Rightarrow> v)
      in plain_span c status)"

text \<open>\<^verbatim>\<open>const c = config[level]\<close>, with no default.\<close>

definition AlertBadge :: "string \<Rightarrow> js_error + alert_span" where
  "AlertBadge level =
     (case get_property alert_config level of
        Undefined \<Rightarrow> Inl TypeError
      | Inherited \<Rightarrow>
          Inr \<lparr>backgroundColor = None, border_style = border_template None,
               color_style = None, label = None, dot_backgroundColor = None\<rparr>
      | Own v \<Rightarrow>
          Inr \<lparr>backgroundColor = Some (bg v), border_style = border_template (Some (border v)),
               color_style = Some (color v), label = Some (text_of v),
               dot_backgroundColor = Some (dot v)\<rparr>)"

definition RiskBadge :: "string \<Rightarrow> js_error + span" where
  "RiskBadge level = plain_span (get_property risk_map level) level"

section \<open>Dashboard view state\<close>

text \<open>
  \<^verbatim>\<open>RegistryDashboardSection\<close> holds three pieces of state:
  \<^verbatim>\<open>comparisonMode\<close>, \<^verbatim>\<open>selectedIds\<close> and \<^verbatim>\<open>showComparison\<close>.
  Every handler runs to completion inside one interaction, so a handler is a function
  from the state before to the state after, together with what it sends outside the
  component: the blocking \<^verbatim>\<open>alert\<close> and the \<^verbatim>\<open>onSelectRecord\<close> callback.
\<close>

record dashboard =
  comparisonMode :: bool
  selectedIds :: "string list"
  showComparison :: bool

datatype effect = Alert string | SelectRecord ImplantRecord

definition initial_dashboard :: dashboard where
  "initial_dashboard = \<lparr>comparisonMode = False, selectedIds = [], showComparison = False\<rparr>"

definition max_notice :: string where
  "max_notice = ''A maximum of 3 implant cases may be selected for comparative review.''"

definition toggleSelection :: "string \<Rightarrow> dashboard \<Rightarrow> dashboard \<times> effect list" where
  "toggleSelection i s =
     (if i \<in> set (selectedIds s)
      then (s\<lparr>selectedIds := filter (\<lambda>x. x \<noteq> i) (selectedIds s)\<rparr>, [])
      else if length (selectedIds s) \<ge> 3
      then (s, [Alert max_notice])
      else (s\<lparr>selectedIds := selectedIds s @ [i]\<rparr>, []))"

definition selectedRecords :: "ImplantRecord list \<Rightarrow> dashboard \<Rightarrow> ImplantRecord list" where
  "selectedRecords REGISTRY_DATA s =
     filter (\<lambda>r. id' r \<in> set (selectedIds s)) REGISTRY_DATA"

text \<open>The switch's \<^verbatim>\<open>onCheckedChange\<close>.\<close>

definition onCheckedChange :: "bool \<Rightarrow> dashboard \<Rightarrow> dashboard" where
  "onCheckedChange val s =
     (let s1 = s\<lparr>comparisonMode := val\<rparr>
      in if \<not> val then s1\<lparr>selectedIds := [], showComparison := False\<rparr> else s1)"

text \<open>A row's \<^verbatim>\<open>onClick\<close>, and its \<^verbatim>\<open>onKeyDown\<close> for Enter and space.\<close>

definition rowActivate :: "ImplantRecord \<Rightarrow> dashboard \<Rightarrow> dashboard \<times> effect list" where
  "rowActivate r s =
     (if comparisonMode s then toggleSelection (id' r) s else (s, [SelectRecord r]))"

text \<open>The buttons \<^verbatim>\<open>Compare Selected\<close>, \<^verbatim>\<open>Clear selection\<close> and
  \<^verbatim>\<open>Close comparison\<close>.\<close>

definition compareSelected :: "dashboard \<Rightarrow> dashboard" where
  "compareSelected s = s\<lparr>showComparison := True\<rparr>"

definition clearSelection :: "dashboard \<Rightarrow> dashboard" where
  "clearSelection s = s\<lparr>selectedIds := [], showComparison := False\<rparr>"

definition closeComparison :: "dashboard \<Rightarrow> dashboard" where
  "closeComparison s = s\<lparr>showComparison := False\<rparr>"

text \<open>What the component renders in a state: the guards of its conditional blocks.\<close>

definition checkbox_rendered :: "dashboard \<Rightarrow> bool" where
  "checkbox_rendered s = comparisonMode s"

definition compare_button_rendered :: "dashboard \<Rightarrow> bool" where
  "compare_button_rendered s = (comparisonMode s \<and> length (selectedIds s) \<ge> 2)"

definition clear_button_rendered :: "dashboard \<Rightarrow> bool" where
  "clear_button_rendered s = (comparisonMode s \<and> length (selectedIds s) > 0)"

definition comparison_rendered :: "ImplantRecord list \<Rightarrow> dashboard \<Rightarrow> bool" where
  "comparison_rendered REGISTRY_DATA s =
     (comparisonMode s \<and> showComparison s \<and> length (selectedRecords REGISTRY_DATA s) \<ge> 2)"

subsection \<open>Interactions\<close>

text \<open>
  The interactions the rendered dashboard offers. A control that is not rendered cannot be
  used: its interaction gives \<open>None\<close>. Rows exist for the records of the registry only.
\<close>

datatype event =
    SwitchChange bool
  | RowActivate ImplantRecord
  | CheckboxChange ImplantRecord
  | CompareClick
  | ClearClick
  | CloseComparisonClick

fun handle :: "ImplantRecord list \<Rightarrow> event \<Rightarrow> dashboard \<Rightarrow> (dashboard \<times> effect list) option" where
  "handle reg (SwitchChange val) s = Some (onCheckedChange val s, [])"
| "handle reg (RowActivate r) s =
     (if r \<in> set reg then Some (rowActivate r s) else None)"
| "handle reg (CheckboxChange r) s =
     (if r \<in> set reg \<and> checkbox_rendered s then Some (toggleSelection (id' r) s) else None)"
| "handle reg CompareClick s =
     (if compare_button_rendered s then Some (compareSelected s, []) else None)"
| "handle reg ClearClick s =
     (if clear_button_rendered s then Some (clearSelection s, []) else None)"
| "handle reg CloseComparisonClick s =
     (if comparison_rendered reg s then Some (closeComparison s, []) else None)"

text \<open>A sequence of interactions, from a state; the effects are collected in order.\<close>

fun run :: "ImplantRecord list \<Rightarrow> event list \<Rightarrow> dashboard \<Rightarrow> (dashboard \<times> effect list) option" where
  "run reg [] s = Some (s, [])"
| "run reg (e # es) s =
     (case handle reg e s of
        None \<Rightarrow> None
      | Some (s1, out1) \<Rightarrow>
          (case run reg es s1 of
             None \<Rightarrow> None
           | Some (s2, out2) \<Rightarrow> Some (s2, out1 @ out2)))"

inductive steps :: "ImplantRecord list \<Rightarrow> dashboard \<Rightarrow> dashboard \<Rightarrow> bool"
  for reg :: "ImplantRecord list" and s :: dashboard where
    steps_refl: "steps reg s s"
  | steps_step: "steps reg s t \<Longrightarrow> handle reg e t = Some (u, out) \<Longrightarrow> steps reg s u"

definition reachable :: "ImplantRecord list \<Rightarrow> dashboard \<Rightarrow> bool" where
  "reachable reg s = steps reg initial_dashboard s"

subsection \<open>The states of the comparison-selection state machine\<close>

text \<open>
  The four named states, read off the component's state: \<open>inactive\<close> is comparison mode
  off, \<open>comparing\<close> is the comparison table on screen, \<open>ready\<close> is at least two
  selected with the table hidden, \<open>collecting\<close> is the rest.
\<close>

datatype phase = inactive | collecting | ready | comparing

definition phase_of :: "ImplantRecord list \<Rightarrow> dashboard \<Rightarrow> phase" where
  "phase_of reg s =
     (if \<not> comparisonMode s then inactive
      else if comparison_rendered reg s then comparing
      else if length (selectedIds s) \<ge> 2 then ready
      else collecting)"

text \<open>The invariant of the selection: no duplicates, at most three.\<close>

definition selection_ok :: "dashboard \<Rightarrow> bool" where
  "selection_ok s = (distinct (selectedIds s) \<and> length (selectedIds s) \<le> 3)"

subsection \<open>The comparison table\<close>

text \<open>
  The table is a header row, \<^verbatim>\<open>Attribute\<close> and one cell per selected record, and six
  attribute rows, each a label and one cell per selected record. A cell is the text
  \<^verbatim>\<open>String(r[key])\<close>, kept as the value \<^verbatim>\<open>r[key]\<close> it spells, or the element
  that replaces it: the duration of the surgery date, an alert badge, a status badge.
\<close>

datatype field_value = StringValue string | NumberValue nat | UndefinedValue

datatype cell =
    TextCell field_value
  | DurationCell string
  | AlertBadgeCell string
  | StatusBadgeCell string

definition comparison_attributes :: "(string \<times> string) list" where
  "comparison_attributes =
     [(''Implant Category'', ''implantCategory''),
      (''Implant Duration'', ''surgeryDate''),
      (''Alert Level'', ''alertLevel''),
      (''Follow-Up Status'', ''followUpStatus''),
      (''Revision History'', ''revisionHistory''),
      (''Complication Events'', ''complicationsLogged'')]"

text \<open>\<^verbatim>\<open>r[key]\<close>, for a key of the table.\<close>

definition record_field :: "string \<Rightarrow> ImplantRecord \<Rightarrow> field_value" where
  "record_field key r =
     (if key = ''implantCategory'' then StringValue (implantCategory r)
      else if key = ''surgeryDate'' then StringValue (surgeryDate r)
      else if key = ''alertLevel'' then StringValue (alertLevel r)
      else if key = ''followUpStatus'' then StringValue (followUpStatus r)
      else if key = ''revisionHistory'' then StringValue (revisionHistory r)
      else if key = ''complicationsLogged'' then NumberValue (complicationsLogged r)
      else UndefinedValue)"

definition displayVal :: "string \<Rightarrow> ImplantRecord \<Rightarrow> cell" where
  "displayVal key r =
     (let d0 = TextCell (record_field key r);
          d1 = (if key = ''surgeryDate'' then DurationCell (surgeryDate r) else d0);
          d2 = (if key = ''alertLevel'' then AlertBadgeCell (alertLevel r) else d1);
          d3 = (if key = ''followUpStatus'' then StatusBadgeCell (followUpStatus r) else d2)
      in d3)"

record comparison_table =
  header :: "string list"
  body :: "(string \<times> cell list) list"

definition comparisonTable :: "ImplantRecord list \<Rightarrow> dashboard \<Rightarrow> comparison_table option" where
  "comparisonTable REGISTRY_DATA s =
     (if comparison_rendered REGISTRY_DATA s
      then Some
        \<lparr>header = ''Attribute'' # map patientId (selectedRecords REGISTRY_DATA s),
         body = map (\<lambda>(lbl, key). (lbl, map (displayVal key) (selectedRecords REGISTRY_DATA s)))
                  comparison_attributes\<rparr>
      else None)"

section \<open>Detail panel\<close>

text \<open>
  \<^verbatim>\<open>RegistryAndAnalyticsSections\<close> holds the open record,
  \<^verbatim>\<open>selectedRecord\<close>, and renders \<^verbatim>\<open>CaseReviewPanel\<close> while it is not
  null. The panel's effect touches two things of the document: the inline
  \<^verbatim>\<open>overflow\<close> style of the body and the \<^verbatim>\<open>keydown\<close> listeners, counted
  here. The effect's body runs when the panel mounts, its cleanup when the panel
  unmounts; when the panel is rendered again with another record, its \<^verbatim>\<open>onClose\<close>
  is a new function, and the cleanup runs, then the body.
\<close>

record page =
  mounted :: bool
  selectedRecord :: "ImplantRecord option"
  body_overflow :: string
  keydown_listeners :: nat

definition initial_page :: page where
  "initial_page =
     \<lparr>mounted = True, selectedRecord = None, body_overflow = [], keydown_listeners = 0\<rparr>"

definition panel_effect :: "page \<Rightarrow> page" where
  "panel_effect p =
     p\<lparr>keydown_listeners := keydown_listeners p + 1, body_overflow := ''hidden''\<rparr>"

definition panel_cleanup :: "page \<Rightarrow> page" where
  "panel_cleanup p =
     p\<lparr>keydown_listeners := keydown_listeners p - 1, body_overflow := []\<rparr>"

definition setSelectedRecord :: "ImplantRecord option \<Rightarrow> page \<Rightarrow> page" where
  "setSelectedRecord v p =
     (let p1 = p\<lparr>selectedRecord := v\<rparr>
      in case (selectedRecord p, v) of
           (None, None) \<Rightarrow> p1
         | (None, Some b) \<Rightarrow> panel_effect p1
         | (Some a, None) \<Rightarrow> panel_cleanup p1
         | (Some a, Some b) \<Rightarrow> if a = b then p1 else panel_effect (panel_cleanup p1))"

definition onClose :: "page \<Rightarrow> page" where
  "onClose p = setSelectedRecord None p"

definition unmount :: "page \<Rightarrow> page" where
  "unmount p =
     (case selectedRecord p of
        None \<Rightarrow> p
      | Some a \<Rightarrow> panel_cleanup p)
     \<lparr>mounted := False, selectedRecord := None\<rparr>"

datatype page_event =
    OpenRecord ImplantRecord
  | CloseClick
  | BackdropClick
  | BackdropKeyDown string
  | DocumentKeyDown string
  | Unmount

fun page_handle :: "page_event \<Rightarrow> page \<Rightarrow> page option" where
  "page_handle (OpenRecord r) p =
     (if mounted p then Some (setSelectedRecord (Some r) p) else None)"
| "page_handle CloseClick p =
     (if mounted p \<and> selectedRecord p \<noteq> None then Some (onClose p) else None)"
| "page_handle BackdropClick p =
     (if mounted p \<and> selectedRecord p \<noteq> None then Some (onClose p) else None)"
| "page_handle (BackdropKeyDown k) p =
     (if mounted p \<and> selectedRecord p \<noteq> None
      then Some (if k = ''Enter'' \<or> k = '' '' then onClose p else p)
      else None)"
| "page_handle (DocumentKeyDown k) p =
     Some (if keydown_listeners p > 0 \<and> k = ''Escape'' then onClose p else p)"
| "page_handle Unmount p = (if mounted p then Some (unmount p) else None)"

inductive page_reachable :: "page \<Rightarrow> bool" where
    page_init: "page_reachable initial_page"
  | page_step: "page_reachable p \<Longrightarrow> page_handle e p = Some q \<Longrightarrow> page_reachable q"

definition scroll_locked :: "page \<Rightarrow> bool" where
  "scroll_locked p = (body_overflow p = ''hidden'')"

section \<open>Duration formatter\<close>

datatype duration_unit = InDays | InMonths | InYears

datatype duration_label = Placeholder | Elapsed duration_unit int

text \<open>
  Modelled from the spec: \<^verbatim>\<open>getImplantDuration\<close> of \<^verbatim>\<open>registryData.ts\<close>,
  which is imported by the sections and is not among the sources. From a calendar date
  string it gives a label of the time elapsed until now, in days under a month-equivalent
  threshold, in months under a year-equivalent threshold, in years otherwise, and the
  placeholder dash on a missing or invalid input. What the spec leaves to the host or
  leaves open is a parameter: the host's reading of a date string as a day number
  (\<open>None\<close> for an invalid date), today's day number, and the two thresholds in days.
  A label carries its unit and the elapsed days it stands for.
\<close>

definition getImplantDuration ::
  "(string \<Rightarrow> int option) \<Rightarrow> int \<Rightarrow> int \<Rightarrow> int \<Rightarrow> string option \<Rightarrow> duration_label" where
  "getImplantDuration parse_date today month_days year_days surgery_date =
     (case surgery_date of
        None \<Rightarrow> Placeholder
      | Some d \<Rightarrow>
          (case parse_date d of
             None \<Rightarrow> Placeholder
           | Some day \<Rightarrow>
               (let elapsed = today - day
                in if elapsed < month_days then Elapsed InDays elapsed
                   else if elapsed < year_days then Elapsed InMonths elapsed
                   else Elapsed InYears elapsed)))"

section \<open>Sample data and invariants\<close>

text \<open>
  \<^verbatim>\<open>REGISTRY_DATA\<close> is a constant of \<^verbatim>\<open>registryData.ts\<close>; the functions
  above take it as a parameter. The registry below, of four records with unique
  identifiers, is the concrete input of the examples.
\<close>

definition sample_record :: "string \<Rightarrow> string \<Rightarrow> ImplantRecord" where
  "sample_record i p =
     \<lparr>id' = i, patientId = p, implantCategory = ''Total Hip Replacement'',
      surgeryDate = ''2021-03-15'', revisionHistory = ''None'', complicationsLogged = 0,
      followUpStatus = ''Scheduled'', alertLevel = ''stable'', riskLevel = ''Low''\<rparr>"

definition sample_registry :: "ImplantRecord list" where
  "sample_registry =
     [sample_record ''A'' ''PT-A'', sample_record ''B'' ''PT-B'',
      sample_record ''C'' ''PT-C'', sample_record ''D'' ''PT-D'']"

text \<open>Every selected identifier is the identifier of a registry record.\<close>

definition ids_in_registry :: "ImplantRecord list \<Rightarrow> dashboard \<Rightarrow> bool" where
  "ids_in_registry reg s = (set (selectedIds s) \<subseteq> set (map id' reg))"

text \<open>With comparison mode off, nothing is selected and the table is not asked for.\<close>

definition off_is_empty :: "dashboard \<Rightarrow> bool" where
  "off_is_empty s = (comparisonMode s \<or> (selectedIds s = [] \<and> \<not> showComparison s))"

text \<open>The invariant of the page: the lock and the listener are there exactly while a record
  is open, and a record is open only while the page is mounted.\<close>

definition page_inv :: "page \<Rightarrow> bool" where
  "page_inv p =
     (body_overflow p = (if selectedRecord p = None then [] else ''hidden'') \<and>
      keydown_listeners p = (if selectedRecord p = None then 0 else 1) \<and>
      (mounted p \<or> selectedRecord p = None))"

section \<open>Badges: the default treatment\<close>

lemma StatusBadge_default:
  "status \<notin> set followUpStatus_enum \<Longrightarrow> status \<notin> set object_prototype_keys \<Longrightarrow>
   StatusBadge status =
     Inr \<lparr>backgroundColor = Some ''rgba(67,122,168,0.07)'',
          border_style = ''1px solid rgba(67,122,168,0.25)'',
          color_style = Some ''var(--thodar-blue)'', label = Some status\<rparr>"
  by (simp add: StatusBadge_def get_property_def status_map_def followUpStatus_enum_def
      plain_span_def border_template_def)

lemma StatusBadge_never_throws: "\<exists>sp. StatusBadge status = Inr sp"
  by (auto simp add: StatusBadge_def get_property_def status_map_def plain_span_def
      split: js_value.splits option.splits)

lemma AlertBadge_enum:
  "level \<in> set alertLevel_enum \<Longrightarrow>
   \<exists>v. map_of alert_config level = Some v \<and>
       AlertBadge level =
         Inr \<lparr>backgroundColor = Some (bg v), border_style = ''1px solid '' @ border v,
              color_style = Some (color v), label = Some (text_of v),
              dot_backgroundColor = Some (dot v)\<rparr>"
  by (auto simp add: AlertBadge_def get_property_def alert_config_def alertLevel_enum_def
      border_template_def)

lemma RiskBadge_enum:
  "level \<in> set riskLevel_enum \<Longrightarrow>
   \<exists>v. map_of risk_map level = Some v \<and>
       RiskBadge level =
         Inr \<lparr>backgroundColor = Some (bg v), border_style = ''1px solid '' @ border v,
              color_style = Some (color v), label = Some level\<rparr>"
  by (auto simp add: RiskBadge_def get_property_def risk_map_def riskLevel_enum_def
      border_template_def plain_span_def)

text \<open>
  A status that names a member of \<^verbatim>\<open>Object.prototype\<close> is found by the lookup, so
  the default is not taken, and the badge has no treatment at all.
\<close>

lemma StatusBadge_inherited_key:
  "StatusBadge ''constructor'' =
     Inr \<lparr>backgroundColor = None, border_style = ''1px solid undefined'',
          color_style = None, label = Some ''constructor''\<rparr>"
  by (simp add: StatusBadge_def get_property_def status_map_def object_prototype_keys_def
      plain_span_def border_template_def)

text \<open>
  C2, as the code has it. A follow-up status outside the enumeration (and not the name of
  an inherited member of the lookup object) is rendered with the Scheduled treatment and
  its own text, and the status badge never throws. The alert and risk badges take a value
  of their enumeration, by their parameter types, and render the treatment configured for
  it; they have no default.
\<close>

theorem badge_default_treatment:
  "(status \<notin> set followUpStatus_enum \<and> status \<notin> set object_prototype_keys \<longrightarrow>
      StatusBadge status =
        Inr \<lparr>backgroundColor = Some ''rgba(67,122,168,0.07)'',
             border_style = ''1px solid rgba(67,122,168,0.25)'',
             color_style = Some ''var(--thodar-blue)'', label = Some status\<rparr>) \<and>
   (\<exists>sp. StatusBadge status = Inr sp) \<and>
   (alert \<in> set alertLevel_enum \<longrightarrow>
      (\<exists>v. map_of alert_config alert = Some v \<and>
           AlertBadge alert =
             Inr \<lparr>backgroundColor = Some (bg v), border_style = ''1px solid '' @ border v,
                  color_style = Some (color v), label = Some (text_of v),
                  dot_backgroundColor = Some (dot v)\<rparr>)) \<and>
   (risk \<in> set riskLevel_enum \<longrightarrow>
      (\<exists>v. map_of risk_map risk = Some v \<and>
           RiskBadge risk =
             Inr \<lparr>backgroundColor = Some (bg v), border_style = ''1px solid '' @ border v,
                  color_style = Some (color v), label = Some risk\<rparr>))"
  using StatusBadge_default [of status] StatusBadge_never_throws [of status]
    AlertBadge_enum [of alert] RiskBadge_enum [of risk]
  by blast

theorem badge_default_treatment_witness:
  "''Pending'' \<notin> set followUpStatus_enum \<and> ''Pending'' \<notin> set object_prototype_keys \<and>
   StatusBadge ''Pending'' =
     Inr \<lparr>backgroundColor = Some ''rgba(67,122,168,0.07)'',
          border_style = ''1px solid rgba(67,122,168,0.25)'',
          color_style = Some ''var(--thodar-blue)'', label = Some ''Pending''\<rparr> \<and>
   ''review'' \<in> set alertLevel_enum \<and>
   AlertBadge ''review'' =
     Inr \<lparr>backgroundColor = Some ''rgba(217,119,6,0.07)'',
          border_style = ''1px solid rgba(217,119,6,0.25)'',
          color_style = Some ''#b45309'', label = Some ''Review Pending'',
          dot_backgroundColor = Some ''#d97706''\<rparr> \<and>
   ''High'' \<in> set riskLevel_enum \<and>
   RiskBadge ''High'' =
     Inr \<lparr>backgroundColor = Some ''rgba(220,38,38,0.07)'',
          border_style = ''1px solid rgba(220,38,38,0.25)'',
          color_style = Some ''#b91c1c'', label = Some ''High''\<rparr>"
proof -
  have a: "''Pending'' \<notin> set followUpStatus_enum \<and> ''Pending'' \<notin> set object_prototype_keys"
    by (simp add: followUpStatus_enum_def object_prototype_keys_def)
  have b: "''review'' \<in> set alertLevel_enum" by (simp add: alertLevel_enum_def)
  have c: "''High'' \<in> set riskLevel_enum" by (simp add: riskLevel_enum_def)
  from badge_default_treatment [of "''Pending''" "''review''" "''High''"] a b c
  show ?thesis by (auto simp: alert_config_def risk_map_def)
qed

text \<open>
  At a value outside their enumerations the alert and the risk badge find nothing to read
  the treatment from, and throw.
\<close>

theorem badge_fallback_counterexample:
  "''critical'' \<notin> set alertLevel_enum \<and> AlertBadge ''critical'' = Inl TypeError \<and>
   ''Critical'' \<notin> set riskLevel_enum \<and> RiskBadge ''Critical'' = Inl TypeError"
  by (simp add: AlertBadge_def RiskBadge_def get_property_def alert_config_def risk_map_def
      object_prototype_keys_def plain_span_def alertLevel_enum_def riskLevel_enum_def)

section \<open>Dashboard: invariants of the reachable states\<close>

lemma toggleSelection_selection_ok:
  "selection_ok s \<Longrightarrow> selection_ok (fst (toggleSelection i s))"
  unfolding selection_ok_def toggleSelection_def
  by (auto intro: le_trans [OF length_filter_le])

lemma toggleSelection_ids_subset:
  "set (selectedIds (fst (toggleSelection i s))) \<subseteq> insert i (set (selectedIds s))"
  unfolding toggleSelection_def by auto

lemma toggleSelection_frame:
  "comparisonMode (fst (toggleSelection i s)) = comparisonMode s \<and>
   showComparison (fst (toggleSelection i s)) = showComparison s"
  unfolding toggleSelection_def by simp

lemma handle_selection_ok:
  "selection_ok s \<Longrightarrow> handle reg e s = Some (t, out) \<Longrightarrow> selection_ok t"
proof (cases e)
  case (SwitchChange v)
  assume "selection_ok s" "handle reg e s = Some (t, out)"
  with SwitchChange show ?thesis
    by (auto simp: onCheckedChange_def selection_ok_def Let_def)
next
  case (RowActivate r)
  assume a: "selection_ok s" "handle reg e s = Some (t, out)"
  with RowActivate have "t = fst (rowActivate r s)"
    by (auto split: if_splits)
  with a(1) show ?thesis
    using toggleSelection_selection_ok [of s "id' r"] by (simp add: rowActivate_def)
next
  case (CheckboxChange r)
  assume a: "selection_ok s" "handle reg e s = Some (t, out)"
  with CheckboxChange have "t = fst (toggleSelection (id' r) s)"
    by (auto split: if_splits)
  with a(1) show ?thesis by (simp add: toggleSelection_selection_ok)
next
  case CompareClick
  assume "selection_ok s" "handle reg e s = Some (t, out)"
  with CompareClick show ?thesis
    by (auto simp: compareSelected_def selection_ok_def split: if_splits)
next
  case ClearClick
  assume "selection_ok s" "handle reg e s = Some (t, out)"
  with ClearClick show ?thesis
    by (auto simp: clearSelection_def selection_ok_def split: if_splits)
next
  case CloseComparisonClick
  assume "selection_ok s" "handle reg e s = Some (t, out)"
  with CloseComparisonClick show ?thesis
    by (auto simp: closeComparison_def selection_ok_def split: if_splits)
qed

lemma steps_selection_ok:
  "steps reg s t \<Longrightarrow> selection_ok s \<Longrightarrow> selection_ok t"
  by (induction rule: steps.induct) (auto dest: handle_selection_ok)

lemma initial_selection_ok: "selection_ok initial_dashboard"
  by (simp add: selection_ok_def initial_dashboard_def)

lemma reachable_selection_ok: "reachable reg s \<Longrightarrow> selection_ok s"
  unfolding reachable_def using steps_selection_ok initial_selection_ok by blast

lemma handle_ids_in_registry:
  "ids_in_registry reg s \<Longrightarrow> handle reg e s = Some (t, out) \<Longrightarrow> ids_in_registry reg t"
  by (cases e)
     (auto simp: ids_in_registry_def onCheckedChange_def rowActivate_def toggleSelection_def
        compareSelected_def clearSelection_def closeComparison_def Let_def split: if_splits)

lemma reachable_ids_in_registry: "reachable reg s \<Longrightarrow> ids_in_registry reg s"
  unfolding reachable_def
proof (induction rule: steps.induct)
  case steps_refl
  show ?case by (simp add: ids_in_registry_def initial_dashboard_def)
next
  case (steps_step t e u out)
  then show ?case by (blast intro: handle_ids_in_registry)
qed

lemma handle_off_is_empty:
  "off_is_empty s \<Longrightarrow> handle reg e s = Some (t, out) \<Longrightarrow> off_is_empty t"
  by (cases e)
     (auto simp: off_is_empty_def onCheckedChange_def rowActivate_def toggleSelection_def
        compareSelected_def clearSelection_def closeComparison_def Let_def
        checkbox_rendered_def compare_button_rendered_def clear_button_rendered_def
        comparison_rendered_def split: if_splits)

lemma reachable_off_is_empty: "reachable reg s \<Longrightarrow> off_is_empty s"
  unfolding reachable_def
proof (induction rule: steps.induct)
  case steps_refl
  show ?case by (simp add: off_is_empty_def initial_dashboard_def)
next
  case (steps_step t e u out)
  then show ?case by (blast intro: handle_off_is_empty)
qed

subsection \<open>The selected records\<close>

lemma length_selected_le:
  assumes "distinct (map id' reg)"
  shows "length (filter (\<lambda>r. id' r \<in> set ids) reg) \<le> length ids"
proof -
  let ?sel = "filter (\<lambda>r. id' r \<in> set ids) reg"
  have d: "distinct (map id' ?sel)"
    using assms by (simp add: distinct_map_filter)
  have "set (map id' ?sel) \<subseteq> set ids" by auto
  then have "card (set (map id' ?sel)) \<le> card (set ids)"
    by (simp add: card_mono)
  moreover have "card (set (map id' ?sel)) = length ?sel"
    using d distinct_card by fastforce
  moreover have "card (set ids) \<le> length ids" by (rule card_length)
  ultimately show ?thesis by linarith
qed

lemma length_selected_eq:
  assumes "distinct (map id' reg)" "distinct ids" "set ids \<subseteq> set (map id' reg)"
  shows "length (filter (\<lambda>r. id' r \<in> set ids) reg) = length ids"
proof -
  let ?sel = "filter (\<lambda>r. id' r \<in> set ids) reg"
  have d: "distinct (map id' ?sel)"
    using assms(1) by (simp add: distinct_map_filter)
  have "set (map id' ?sel) = set ids" using assms(3) by auto
  then have "card (set (map id' ?sel)) = card (set ids)" by simp
  moreover have "card (set (map id' ?sel)) = length ?sel"
    using d distinct_card by fastforce
  moreover have "card (set ids) = length ids" using assms(2) by (rule distinct_card)
  ultimately show ?thesis by linarith
qed



subsection \<open>Running interactions\<close>

lemma steps_front:
  "steps reg t u \<Longrightarrow> handle reg e s = Some (t, out) \<Longrightarrow> steps reg s u"
proof (induction rule: steps.induct)
  case steps_refl
  then show ?case by (blast intro: steps.intros)
next
  case (steps_step v e' u out')
  then show ?case by (blast intro: steps.intros)
qed

lemma run_steps: "run reg es s = Some (t, out) \<Longrightarrow> steps reg s t"
proof (induction es arbitrary: s t out)
  case Nil
  then show ?case by (simp add: steps_refl)
next
  case (Cons e es)
  from Cons.prems obtain s1 out1 out2
    where h: "handle reg e s = Some (s1, out1)" and r: "run reg es s1 = Some (t, out2)"
    by (auto split: option.splits prod.splits)
  from Cons.IH [OF r] h show ?case by (rule steps_front)
qed

lemma run_reachable: "run reg es initial_dashboard = Some (t, out) \<Longrightarrow> reachable reg t"
  unfolding reachable_def by (rule run_steps)

lemma sample_distinct: "distinct (map id' sample_registry)"
  by (simp add: sample_registry_def sample_record_def)



section \<open>The comparison table\<close>




section \<open>Toggling a selected record\<close>

lemma run_ABC: "run sample_registry
     [SwitchChange True, RowActivate (sample_record ''A'' ''PT-A''),
      RowActivate (sample_record ''B'' ''PT-B''), CheckboxChange (sample_record ''C'' ''PT-C''),
      CompareClick] initial_dashboard
   = Some (\<lparr>comparisonMode = True, selectedIds = [''A'', ''B'', ''C''], showComparison = True\<rparr>, [])"
  by (simp add: sample_registry_def sample_record_def initial_dashboard_def onCheckedChange_def
      rowActivate_def toggleSelection_def compare_button_rendered_def compareSelected_def
      checkbox_rendered_def)

lemma selected_count:
  assumes "distinct (map id' reg)" and "selection_ok s" and "ids_in_registry reg s"
  shows "length (selectedRecords reg s) = length (selectedIds s)"
  unfolding selectedRecords_def
  using assms by (intro length_selected_eq) (simp_all add: selection_ok_def ids_in_registry_def)

lemma phase_of_by_count:
  assumes "distinct (map id' reg)" and "selection_ok s" and "ids_in_registry reg s"
  shows "phase_of reg s =
     (if \<not> comparisonMode s then inactive
      else if length (selectedIds s) < 2 then collecting
      else if showComparison s then comparing else ready)"
  using selected_count [OF assms]
  by (simp add: phase_of_def comparison_rendered_def)

lemma length_filter_neq_distinct:
  "distinct xs \<Longrightarrow> i \<in> set xs \<Longrightarrow> length (filter (\<lambda>x. x \<noteq> i) xs) = length xs - 1"
proof (induction xs)
  case Nil
  then show ?case by simp
next
  case (Cons x xs)
  show ?case
  proof (cases "x = i")
    case True
    with Cons.prems have "i \<notin> set xs" by simp
    then have "filter (\<lambda>x. x \<noteq> i) xs = xs" by (auto simp: filter_id_conv)
    with True show ?thesis by simp
  next
    case False
    with Cons.prems have m: "i \<in> set xs" and d: "distinct xs" by simp_all
    from m have "length xs > 0" by (cases xs) simp_all
    with Cons.IH [OF d m] False show ?thesis by simp
  qed
qed

text \<open>
  C3, as the code has it. In a reachable state with comparison mode on, toggling an
  identifier that is selected removes it and nothing else: the other identifiers keep
  their order, one fewer is selected, and nothing is sent outside. The machine goes to
  \<open>collecting\<close> exactly when fewer than two identifiers remain; when two remain it stays
  where it was, so deselecting one of three while comparing stays \<open>comparing\<close>.
\<close>

theorem toggle_selected_removes:
  assumes "distinct (map id' reg)" and "reachable reg s" and "comparisonMode s"
    and "i \<in> set (selectedIds s)"
  shows "toggleSelection i s = (s\<lparr>selectedIds := filter (\<lambda>x. x \<noteq> i) (selectedIds s)\<rparr>, []) \<and>
         length (selectedIds (fst (toggleSelection i s))) = length (selectedIds s) - 1 \<and>
         phase_of reg (fst (toggleSelection i s)) =
           (if length (selectedIds s) \<le> 2 then collecting else phase_of reg s)"
proof -
  let ?t = "fst (toggleSelection i s)"
  have ok: "selection_ok s" using assms(2) by (rule reachable_selection_ok)
  have reg: "ids_in_registry reg s" using assms(2) by (rule reachable_ids_in_registry)
  have eq: "toggleSelection i s = (s\<lparr>selectedIds := filter (\<lambda>x. x \<noteq> i) (selectedIds s)\<rparr>, [])"
    using assms(4) by (simp add: toggleSelection_def)
  have ok': "selection_ok ?t" using ok by (rule toggleSelection_selection_ok)
  have reg': "ids_in_registry reg ?t"
    using reg by (auto simp: eq ids_in_registry_def)
  have "distinct (selectedIds s)" using ok by (simp add: selection_ok_def)
  then have "length (filter (\<lambda>x. x \<noteq> i) (selectedIds s)) = length (selectedIds s) - 1"
    using assms(4) by (rule length_filter_neq_distinct)
  then have len: "length (selectedIds ?t) = length (selectedIds s) - 1"
    by (simp add: eq)
  have "phase_of reg ?t = (if length (selectedIds s) \<le> 2 then collecting else phase_of reg s)"
    using len assms(3)
    by (simp add: phase_of_by_count [OF assms(1) ok' reg'] phase_of_by_count [OF assms(1) ok reg]
        toggleSelection_frame) arith
  with eq len show ?thesis by simp
qed

theorem toggle_selected_removes_witness:
  "distinct (map id' sample_registry) \<and>
   reachable sample_registry
     \<lparr>comparisonMode = True, selectedIds = [''A'', ''B'', ''C''], showComparison = True\<rparr> \<and>
   toggleSelection ''B''
     \<lparr>comparisonMode = True, selectedIds = [''A'', ''B'', ''C''], showComparison = True\<rparr>
     = (\<lparr>comparisonMode = True, selectedIds = [''A'', ''C''], showComparison = True\<rparr>, []) \<and>
   phase_of sample_registry (fst (toggleSelection ''B''
     \<lparr>comparisonMode = True, selectedIds = [''A'', ''B'', ''C''], showComparison = True\<rparr>))
     = comparing"
proof -
  let ?s = "\<lparr>comparisonMode = True, selectedIds = [''A'', ''B'', ''C''], showComparison = True\<rparr>"
  have r: "reachable sample_registry ?s" using run_ABC by (rule run_reachable)
  have p: "phase_of sample_registry ?s = comparing"
    by (simp add: phase_of_def comparison_rendered_def selectedRecords_def sample_registry_def
        sample_record_def)
  have t: "toggleSelection ''B'' ?s =
      (\<lparr>comparisonMode = True, selectedIds = [''A'', ''C''], showComparison = True\<rparr>, [])"
    by (simp add: toggleSelection_def)
  have c: "comparisonMode ?s" and m: "''B'' \<in> set (selectedIds ?s)" by simp_all
  have n: "\<not> length (selectedIds ?s) \<le> 2" by simp
  from toggle_selected_removes [OF sample_distinct r c m]
  have "phase_of sample_registry (fst (toggleSelection ''B'' ?s)) =
      (if length (selectedIds ?s) \<le> 2 then collecting else phase_of sample_registry ?s)"
    by blast
  with n p have "phase_of sample_registry (fst (toggleSelection ''B'' ?s)) = comparing"
    by (simp only: if_False)
  with sample_distinct r t show ?thesis by blast
qed

text \<open>
  Deselecting B from A, B, C while the table is shown leaves A, C, and the table is still
  shown: the state is not \<open>collecting\<close>.
\<close>

theorem deselect_returns_to_collecting_counterexample:
  "phase_of sample_registry
     \<lparr>comparisonMode = True, selectedIds = [''A'', ''B'', ''C''], showComparison = True\<rparr>
     = comparing \<and>
   selectedIds (fst (toggleSelection ''B''
     \<lparr>comparisonMode = True, selectedIds = [''A'', ''B'', ''C''], showComparison = True\<rparr>))
     = [''A'', ''C''] \<and>
   phase_of sample_registry (fst (toggleSelection ''B''
     \<lparr>comparisonMode = True, selectedIds = [''A'', ''B'', ''C''], showComparison = True\<rparr>))
     \<noteq> collecting"
  by (simp add: phase_of_def comparison_rendered_def selectedRecords_def sample_registry_def
      sample_record_def toggleSelection_def)

section \<open>The cap of three\<close>

text \<open>
  C4. With exactly three identifiers selected, toggling a fourth, different one changes
  nothing in the state and raises the blocking notice, whose text says
  \<^verbatim>\<open>maximum of 3\<close>; so do a row and a checkbox of such a record in comparison mode.
\<close>

theorem toggle_fourth_rejected:
  assumes "length (selectedIds s) = 3" and "i \<notin> set (selectedIds s)"
  shows "toggleSelection i s = (s, [Alert max_notice]) \<and>
         max_notice = ''A '' @ ''maximum of 3'' @
            '' implant cases may be selected for comparative review.'' \<and>
         (comparisonMode s \<and> r \<in> set reg \<and> id' r = i \<longrightarrow>
            handle reg (RowActivate r) s = Some (s, [Alert max_notice]) \<and>
            handle reg (CheckboxChange r) s = Some (s, [Alert max_notice]))"
  using assms
  by (simp add: toggleSelection_def max_notice_def rowActivate_def checkbox_rendered_def)

theorem toggle_fourth_rejected_witness:
  "length (selectedIds
     \<lparr>comparisonMode = True, selectedIds = [''A'', ''B'', ''C''], showComparison = False\<rparr>) = 3 \<and>
   ''D'' \<notin> set (selectedIds
     \<lparr>comparisonMode = True, selectedIds = [''A'', ''B'', ''C''], showComparison = False\<rparr>) \<and>
   sample_record ''D'' ''PT-D'' \<in> set sample_registry \<and>
   handle sample_registry (RowActivate (sample_record ''D'' ''PT-D''))
     \<lparr>comparisonMode = True, selectedIds = [''A'', ''B'', ''C''], showComparison = False\<rparr>
   = Some (\<lparr>comparisonMode = True, selectedIds = [''A'', ''B'', ''C''], showComparison = False\<rparr>,
       [Alert ''A maximum of 3 implant cases may be selected for comparative review.''])"
proof -
  let ?s = "\<lparr>comparisonMode = True, selectedIds = [''A'', ''B'', ''C''], showComparison = False\<rparr>"
  have a: "length (selectedIds ?s) = 3" by simp
  have b: "''D'' \<notin> set (selectedIds ?s)" by simp
  have c: "sample_record ''D'' ''PT-D'' \<in> set sample_registry" by (simp add: sample_registry_def)
  have d: "id' (sample_record ''D'' ''PT-D'') = ''D''" by (simp add: sample_record_def)
  from toggle_fourth_rejected [OF a b, of "sample_record ''D'' ''PT-D''" sample_registry] c d
  show ?thesis by (simp add: max_notice_def)
qed

section \<open>The selection invariant\<close>

text \<open>
  C5. In every reachable state the selection has no duplicates and at most three
  identifiers, and every operation keeps it so: toggling one identifier, clearing the
  selection, switching the mode, and every interaction of the dashboard.
\<close>

theorem selection_invariant:
  "(reachable reg s \<longrightarrow> distinct (selectedIds s) \<and> length (selectedIds s) \<le> 3) \<and>
   (selection_ok s' \<longrightarrow>
      selection_ok (fst (toggleSelection i s')) \<and>
      selection_ok (clearSelection s') \<and>
      selection_ok (onCheckedChange val s') \<and>
      (\<forall>e t out. handle reg e s' = Some (t, out) \<longrightarrow> selection_ok t))"
proof -
  have a: "reachable reg s \<longrightarrow> distinct (selectedIds s) \<and> length (selectedIds s) \<le> 3"
    using reachable_selection_ok [of reg s] by (simp add: selection_ok_def)
  have b: "selection_ok s' \<longrightarrow> selection_ok (clearSelection s') \<and> selection_ok (onCheckedChange val s')"
    by (simp add: selection_ok_def clearSelection_def onCheckedChange_def Let_def)
  show ?thesis
    using a b toggleSelection_selection_ok [of s' i] handle_selection_ok [of s' reg]
    by blast
qed

theorem selection_invariant_witness:
  "reachable sample_registry
     \<lparr>comparisonMode = True, selectedIds = [''A'', ''B'', ''C''], showComparison = True\<rparr> \<and>
   distinct [''A'', ''B'', ''C''] \<and> length [''A'', ''B'', ''C''] \<le> (3::nat) \<and>
   selection_ok \<lparr>comparisonMode = True, selectedIds = [''A'', ''B'', ''C''], showComparison = True\<rparr> \<and>
   handle sample_registry (RowActivate (sample_record ''B'' ''PT-B''))
     \<lparr>comparisonMode = True, selectedIds = [''A'', ''B'', ''C''], showComparison = True\<rparr>
     = Some (\<lparr>comparisonMode = True, selectedIds = [''A'', ''C''], showComparison = True\<rparr>, []) \<and>
   selection_ok \<lparr>comparisonMode = True, selectedIds = [''A'', ''C''], showComparison = True\<rparr>"
proof -
  let ?s = "\<lparr>comparisonMode = True, selectedIds = [''A'', ''B'', ''C''], showComparison = True\<rparr>"
  let ?t = "\<lparr>comparisonMode = True, selectedIds = [''A'', ''C''], showComparison = True\<rparr>"
  have r: "reachable sample_registry ?s" using run_ABC by (rule run_reachable)
  have h: "handle sample_registry (RowActivate (sample_record ''B'' ''PT-B'')) ?s = Some (?t, [])"
    by (simp add: sample_registry_def sample_record_def rowActivate_def toggleSelection_def)
  note T = selection_invariant [of sample_registry ?s ?s "''B''" False]
  from T r have d: "distinct (selectedIds ?s) \<and> length (selectedIds ?s) \<le> 3" by blast
  then have ok: "selection_ok ?s" by (simp add: selection_ok_def)
  from T ok h have ok': "selection_ok ?t" by blast
  from d have "distinct [''A'', ''B'', ''C''] \<and> length [''A'', ''B'', ''C''] \<le> (3::nat)" by simp
  with r ok h ok' show ?thesis by blast
qed

section \<open>Comparison mode off\<close>

text \<open>
  C6. Switching comparison mode off, from any state, empties the selection and hides the
  comparison table, and the machine is \<open>inactive\<close>. In every reachable state with the
  mode off the selection is empty and the table is not asked for, so switching the mode on
  gives the empty selection in \<open>collecting\<close>.
\<close>

theorem mode_off_clears_selection:
  "onCheckedChange False s =
     \<lparr>comparisonMode = False, selectedIds = [], showComparison = False\<rparr> \<and>
   \<not> comparison_rendered reg (onCheckedChange False s) \<and>
   phase_of reg (onCheckedChange False s) = inactive \<and>
   (reachable reg s' \<and> \<not> comparisonMode s' \<longrightarrow>
      selectedIds s' = [] \<and> \<not> showComparison s' \<and>
      onCheckedChange True s' =
        \<lparr>comparisonMode = True, selectedIds = [], showComparison = False\<rparr> \<and>
      phase_of reg (onCheckedChange True s') = collecting)"
proof -
  have a: "onCheckedChange False s =
     \<lparr>comparisonMode = False, selectedIds = [], showComparison = False\<rparr>"
    by (simp add: onCheckedChange_def)
  have b: "\<not> comparison_rendered reg (onCheckedChange False s) \<and>
     phase_of reg (onCheckedChange False s) = inactive"
    by (simp add: a comparison_rendered_def phase_of_def)
  have c: "selectedIds s' = [] \<and> \<not> showComparison s' \<and>
      onCheckedChange True s' =
        \<lparr>comparisonMode = True, selectedIds = [], showComparison = False\<rparr> \<and>
      phase_of reg (onCheckedChange True s') = collecting"
    if r: "reachable reg s'" and off: "\<not> comparisonMode s'"
  proof -
    from reachable_off_is_empty [OF r] off
    have e: "selectedIds s' = []" and h: "\<not> showComparison s'"
      by (simp_all add: off_is_empty_def)
    have on: "onCheckedChange True s' =
        \<lparr>comparisonMode = True, selectedIds = [], showComparison = False\<rparr>"
      using e h by (simp add: onCheckedChange_def)
    have "phase_of reg (onCheckedChange True s') = collecting"
      by (simp add: on phase_of_def comparison_rendered_def)
    with e h on show ?thesis by simp
  qed
  from a b c show ?thesis by blast
qed

theorem mode_off_clears_selection_witness:
  "reachable sample_registry
     (onCheckedChange False
        \<lparr>comparisonMode = True, selectedIds = [''A'', ''B'', ''C''], showComparison = True\<rparr>) \<and>
   onCheckedChange False
     \<lparr>comparisonMode = True, selectedIds = [''A'', ''B'', ''C''], showComparison = True\<rparr>
     = \<lparr>comparisonMode = False, selectedIds = [], showComparison = False\<rparr> \<and>
   phase_of sample_registry (onCheckedChange True
     \<lparr>comparisonMode = False, selectedIds = [], showComparison = False\<rparr>) = collecting"
proof -
  let ?s = "\<lparr>comparisonMode = True, selectedIds = [''A'', ''B'', ''C''], showComparison = True\<rparr>"
  let ?off = "\<lparr>comparisonMode = False, selectedIds = [], showComparison = False\<rparr>"
  note T = mode_off_clears_selection [of ?s sample_registry ?off]
  from T have e: "onCheckedChange False ?s = ?off" by blast
  have "reachable sample_registry ?s" using run_ABC by (rule run_reachable)
  then have "steps sample_registry initial_dashboard ?s" by (simp add: reachable_def)
  moreover have "handle sample_registry (SwitchChange False) ?s = Some (onCheckedChange False ?s, [])"
    by simp
  ultimately have "steps sample_registry initial_dashboard (onCheckedChange False ?s)"
    by (rule steps_step)
  then have r: "reachable sample_registry (onCheckedChange False ?s)" by (simp add: reachable_def)
  then have r': "reachable sample_registry ?off" by (simp only: e)
  have off: "\<not> comparisonMode ?off" by simp
  from T r' off have "phase_of sample_registry (onCheckedChange True ?off) = collecting" by blast
  with r e show ?thesis by blast
qed

section \<open>When the comparison table is shown\<close>

lemma handle_showComparison:
  assumes "handle reg e t = Some (u, out)" and "showComparison u" and "e \<noteq> CompareClick"
  shows "showComparison t"
  using assms
  by (cases e)
     (auto simp: onCheckedChange_def rowActivate_def toggleSelection_def clearSelection_def
        closeComparison_def Let_def split: if_splits)

lemma comparison_rendered_two:
  assumes "distinct (map id' reg)" and "comparison_rendered reg s"
  shows "comparisonMode s \<and> 2 \<le> length (selectedIds s)"
proof -
  have "length (selectedRecords reg s) \<le> length (selectedIds s)"
    unfolding selectedRecords_def using assms(1) by (rule length_selected_le)
  with assms(2) show ?thesis by (simp add: comparison_rendered_def)
qed

subsection \<open>Runs and reachable states\<close>

lemma run_snoc:
  "run reg (es @ [e]) s =
     (case run reg es s of
        None \<Rightarrow> None
      | Some (t, out1) \<Rightarrow>
          (case handle reg e t of
             None \<Rightarrow> None
           | Some (u, out2) \<Rightarrow> Some (u, out1 @ out2)))"
  by (induction es arbitrary: s) (auto split: option.splits prod.splits)

lemma steps_run: "steps reg s t \<Longrightarrow> \<exists>es out. run reg es s = Some (t, out)"
proof (induction rule: steps.induct)
  case steps_refl
  have "run reg [] s = Some (s, [])" by simp
  then show ?case by blast
next
  case (steps_step t e u out)
  then obtain es out1 where "run reg es s = Some (t, out1)" by blast
  with steps_step.hyps(2) have "run reg (es @ [e]) s = Some (u, out1 @ out)"
    by (simp add: run_snoc)
  then show ?case by blast
qed

lemma reachable_iff_run:
  "reachable reg s \<longleftrightarrow> (\<exists>es out. run reg es initial_dashboard = Some (s, out))"
  unfolding reachable_def using steps_run run_steps by blast

subsection \<open>How the table comes on screen\<close>

lemma handle_raises_showComparison:
  assumes "handle reg e t = Some (u, out)" and "\<not> showComparison t" and "showComparison u"
  shows "e = CompareClick \<and> phase_of reg t = ready \<and> u = compareSelected t"
proof -
  from assms have e: "e = CompareClick" using handle_showComparison by blast
  with assms(1) have b: "compare_button_rendered t" and u: "u = compareSelected t"
    by (auto split: if_splits)
  from b assms(2) have "phase_of reg t = ready"
    by (simp add: phase_of_def compare_button_rendered_def comparison_rendered_def)
  with e u show ?thesis by simp
qed

lemma handle_keeps_showComparison:
  assumes "handle reg e t = Some (u, out)" and "showComparison u"
  shows "e \<noteq> SwitchChange False \<and> e \<noteq> ClearClick \<and> e \<noteq> CloseComparisonClick"
  using assms
  by (cases e)
     (auto simp: onCheckedChange_def clearSelection_def closeComparison_def Let_def
        split: if_splits)

lemma shown_after_compare:
  "run reg es initial_dashboard = Some (s, out) \<Longrightarrow> showComparison s \<Longrightarrow>
   \<exists>es1 es2 r out1.
     es = es1 @ CompareClick # es2 \<and> run reg es1 initial_dashboard = Some (r, out1) \<and>
     phase_of reg r = ready \<and>
     SwitchChange False \<notin> set es2 \<and> ClearClick \<notin> set es2 \<and> CloseComparisonClick \<notin> set es2"
proof (induction es arbitrary: s out rule: rev_induct)
  case Nil
  then show ?case by (auto simp: initial_dashboard_def)
next
  case (snoc e es)
  from snoc.prems(1) obtain t out1 out2
    where t: "run reg es initial_dashboard = Some (t, out1)"
      and h: "handle reg e t = Some (s, out2)"
    by (auto simp: run_snoc split: option.splits prod.splits)
  show ?case
  proof (cases "showComparison t")
    case True
    from snoc.IH [OF t True] obtain es1 es2 r o1
      where d: "es = es1 @ CompareClick # es2" "run reg es1 initial_dashboard = Some (r, o1)"
        "phase_of reg r = ready"
        "SwitchChange False \<notin> set es2 \<and> ClearClick \<notin> set es2 \<and> CloseComparisonClick \<notin> set es2"
      by blast
    from handle_keeps_showComparison [OF h snoc.prems(2)] d(4)
    have "SwitchChange False \<notin> set (es2 @ [e]) \<and> ClearClick \<notin> set (es2 @ [e]) \<and>
          CloseComparisonClick \<notin> set (es2 @ [e])" by auto
    moreover from d(1) have "es @ [e] = es1 @ CompareClick # (es2 @ [e])" by simp
    ultimately show ?thesis using d(2,3) by blast
  next
    case False
    from handle_raises_showComparison [OF h False snoc.prems(2)]
    have "e = CompareClick" and "phase_of reg t = ready" by simp_all
    then have "es @ [e] = es @ CompareClick # []" and "phase_of reg t = ready" by simp_all
    with t show ?thesis by fastforce
  qed
qed

lemma table_appears:
  assumes reg: "distinct (map id' reg)" and r: "reachable reg t"
    and h: "handle reg e t = Some (u, out)"
    and before: "\<not> comparison_rendered reg t" and after: "comparison_rendered reg u"
  shows "(e = CompareClick \<and> phase_of reg t = ready) \<or>
         (phase_of reg t = collecting \<and> showComparison t \<and>
          (\<exists>x. e = RowActivate x \<or> e = CheckboxChange x))"
proof (cases "showComparison t")
  case False
  from after have "showComparison u" by (simp add: comparison_rendered_def)
  from handle_raises_showComparison [OF h False this] show ?thesis by simp
next
  case True
  have ok: "selection_ok t" using r by (rule reachable_selection_ok)
  have inreg: "ids_in_registry reg t" using r by (rule reachable_ids_in_registry)
  have off: "off_is_empty t" using r by (rule reachable_off_is_empty)
  from off True have m: "comparisonMode t" by (simp add: off_is_empty_def)
  from before True m have "length (selectedRecords reg t) < 2"
    by (simp add: comparison_rendered_def)
  then have few: "length (selectedIds t) < 2"
    using selected_count [OF reg ok inreg] by simp
  with m have ph: "phase_of reg t = collecting"
    by (simp add: phase_of_by_count [OF reg ok inreg])
  have "\<exists>x. e = RowActivate x \<or> e = CheckboxChange x"
  proof (cases e)
    case (SwitchChange v)
    with h m before after show ?thesis
      by (cases v) (auto simp: onCheckedChange_def comparison_rendered_def selectedRecords_def Let_def)
  next
    case CompareClick
    with h few show ?thesis by (simp add: compare_button_rendered_def split: if_splits)
  next
    case ClearClick
    with h after show ?thesis
      by (auto simp: clearSelection_def comparison_rendered_def split: if_splits)
  next
    case CloseComparisonClick
    with h after show ?thesis
      by (auto simp: closeComparison_def comparison_rendered_def split: if_splits)
  qed simp_all
  with ph True show ?thesis by simp
qed

text \<open>
  C7, as the code has it. After any run of interactions on a registry with unique
  identifiers: the compare action is on offer exactly when comparison mode is on and at
  least two records are selected; when the comparison table is on screen, comparison mode
  is on, at least two records are selected, and the run contains a compare action taken
  in a \<open>ready\<close> state with no switching off, clearing or closing after it; and the table
  comes on screen in one interaction either by the compare action in a \<open>ready\<close> state, or
  by a row or checkbox toggle in a \<open>collecting\<close> state in which an earlier compare action
  still stands.
\<close>

theorem comparison_shown_after_compare:
  assumes "distinct (map id' reg)" and "run reg es initial_dashboard = Some (s, out)"
  shows "(handle reg CompareClick s \<noteq> None \<longleftrightarrow>
            comparisonMode s \<and> 2 \<le> length (selectedIds s)) \<and>
         (comparison_rendered reg s \<longrightarrow>
            comparisonMode s \<and> 2 \<le> length (selectedIds s) \<and>
            (\<exists>es1 es2 r out1.
               es = es1 @ CompareClick # es2 \<and>
               run reg es1 initial_dashboard = Some (r, out1) \<and> phase_of reg r = ready \<and>
               SwitchChange False \<notin> set es2 \<and> ClearClick \<notin> set es2 \<and>
               CloseComparisonClick \<notin> set es2)) \<and>
         (\<forall>e u out'.
            \<not> comparison_rendered reg s \<and> handle reg e s = Some (u, out') \<and>
            comparison_rendered reg u \<longrightarrow>
              (e = CompareClick \<and> phase_of reg s = ready) \<or>
              (phase_of reg s = collecting \<and> showComparison s \<and>
               (\<exists>x. e = RowActivate x \<or> e = CheckboxChange x)))"
proof -
  have r: "reachable reg s" using assms(2) by (rule run_reachable)
  have a: "handle reg CompareClick s \<noteq> None \<longleftrightarrow>
            comparisonMode s \<and> 2 \<le> length (selectedIds s)"
    by (simp add: compare_button_rendered_def)
  have b: "comparisonMode s \<and> 2 \<le> length (selectedIds s) \<and>
            (\<exists>es1 es2 r out1.
               es = es1 @ CompareClick # es2 \<and>
               run reg es1 initial_dashboard = Some (r, out1) \<and> phase_of reg r = ready \<and>
               SwitchChange False \<notin> set es2 \<and> ClearClick \<notin> set es2 \<and>
               CloseComparisonClick \<notin> set es2)"
    if c: "comparison_rendered reg s"
  proof -
    from c have "showComparison s" by (simp add: comparison_rendered_def)
    from shown_after_compare [OF assms(2) this] comparison_rendered_two [OF assms(1) c]
    show ?thesis by blast
  qed
  have c: "(e = CompareClick \<and> phase_of reg s = ready) \<or>
              (phase_of reg s = collecting \<and> showComparison s \<and>
               (\<exists>x. e = RowActivate x \<or> e = CheckboxChange x))"
    if "\<not> comparison_rendered reg s" and "handle reg e s = Some (u, out')"
      and "comparison_rendered reg u" for e u out'
    using table_appears [OF assms(1) r that(2) that(1) that(3)] .
  from a b c show ?thesis by blast
qed

lemma run_AB_compare_B: "run sample_registry
     [SwitchChange True, RowActivate (sample_record ''A'' ''PT-A''),
      RowActivate (sample_record ''B'' ''PT-B''), CompareClick,
      RowActivate (sample_record ''B'' ''PT-B'')] initial_dashboard
   = Some (\<lparr>comparisonMode = True, selectedIds = [''A''], showComparison = True\<rparr>, [])"
  by (simp add: sample_registry_def sample_record_def initial_dashboard_def onCheckedChange_def
      rowActivate_def toggleSelection_def compare_button_rendered_def compareSelected_def)

lemma reselect_B:
  "handle sample_registry (RowActivate (sample_record ''B'' ''PT-B''))
     \<lparr>comparisonMode = True, selectedIds = [''A''], showComparison = True\<rparr>
   = Some (\<lparr>comparisonMode = True, selectedIds = [''A'', ''B''], showComparison = True\<rparr>, [])"
  by (simp add: sample_registry_def sample_record_def rowActivate_def toggleSelection_def)

lemma phases_A_AB:
  "phase_of sample_registry
     \<lparr>comparisonMode = True, selectedIds = [''A''], showComparison = True\<rparr> = collecting \<and>
   \<not> comparison_rendered sample_registry
     \<lparr>comparisonMode = True, selectedIds = [''A''], showComparison = True\<rparr> \<and>
   comparison_rendered sample_registry
     \<lparr>comparisonMode = True, selectedIds = [''A'', ''B''], showComparison = True\<rparr> \<and>
   phase_of sample_registry
     \<lparr>comparisonMode = True, selectedIds = [''A'', ''B''], showComparison = True\<rparr> = comparing"
  by (simp add: phase_of_def comparison_rendered_def selectedRecords_def sample_registry_def
      sample_record_def)

theorem comparison_shown_after_compare_witness:
  "distinct (map id' sample_registry) \<and>
   run sample_registry
     [SwitchChange True, RowActivate (sample_record ''A'' ''PT-A''),
      RowActivate (sample_record ''B'' ''PT-B''), CheckboxChange (sample_record ''C'' ''PT-C''),
      CompareClick] initial_dashboard
     = Some (\<lparr>comparisonMode = True, selectedIds = [''A'', ''B'', ''C''], showComparison = True\<rparr>, []) \<and>
   comparison_rendered sample_registry
     \<lparr>comparisonMode = True, selectedIds = [''A'', ''B'', ''C''], showComparison = True\<rparr> \<and>
   (\<exists>es1 es2 r out1.
      [SwitchChange True, RowActivate (sample_record ''A'' ''PT-A''),
       RowActivate (sample_record ''B'' ''PT-B''), CheckboxChange (sample_record ''C'' ''PT-C''),
       CompareClick] = es1 @ CompareClick # es2 \<and>
      run sample_registry es1 initial_dashboard = Some (r, out1) \<and>
      phase_of sample_registry r = ready \<and>
      SwitchChange False \<notin> set es2 \<and> ClearClick \<notin> set es2 \<and>
      CloseComparisonClick \<notin> set es2) \<and>
   \<not> comparison_rendered sample_registry
     \<lparr>comparisonMode = True, selectedIds = [''A''], showComparison = True\<rparr> \<and>
   handle sample_registry (RowActivate (sample_record ''B'' ''PT-B''))
     \<lparr>comparisonMode = True, selectedIds = [''A''], showComparison = True\<rparr>
     = Some (\<lparr>comparisonMode = True, selectedIds = [''A'', ''B''], showComparison = True\<rparr>, []) \<and>
   comparison_rendered sample_registry
     \<lparr>comparisonMode = True, selectedIds = [''A'', ''B''], showComparison = True\<rparr> \<and>
   phase_of sample_registry
     \<lparr>comparisonMode = True, selectedIds = [''A''], showComparison = True\<rparr> = collecting \<and>
   showComparison \<lparr>comparisonMode = True, selectedIds = [''A''], showComparison = True\<rparr>"
proof -
  let ?s = "\<lparr>comparisonMode = True, selectedIds = [''A'', ''B'', ''C''], showComparison = True\<rparr>"
  let ?a = "\<lparr>comparisonMode = True, selectedIds = [''A''], showComparison = True\<rparr>"
  let ?ab = "\<lparr>comparisonMode = True, selectedIds = [''A'', ''B''], showComparison = True\<rparr>"
  let ?es = "[SwitchChange True, RowActivate (sample_record ''A'' ''PT-A''),
      RowActivate (sample_record ''B'' ''PT-B''), CheckboxChange (sample_record ''C'' ''PT-C''),
      CompareClick]"
  have c: "comparison_rendered sample_registry ?s"
    by (simp add: comparison_rendered_def selectedRecords_def sample_registry_def
        sample_record_def)
  from comparison_shown_after_compare [OF sample_distinct run_ABC] c
  have d: "\<exists>es1 es2 r out1.
      ?es = es1 @ CompareClick # es2 \<and>
      run sample_registry es1 initial_dashboard = Some (r, out1) \<and>
      phase_of sample_registry r = ready \<and>
      SwitchChange False \<notin> set es2 \<and> ClearClick \<notin> set es2 \<and>
      CloseComparisonClick \<notin> set es2" by blast
  from phases_A_AB have n: "\<not> comparison_rendered sample_registry ?a"
    and y: "comparison_rendered sample_registry ?ab" by simp_all
  from comparison_shown_after_compare [OF sample_distinct run_AB_compare_B] n reselect_B y
  have "(RowActivate (sample_record ''B'' ''PT-B'') = CompareClick \<and>
           phase_of sample_registry ?a = ready) \<or>
        (phase_of sample_registry ?a = collecting \<and> showComparison ?a \<and>
           (\<exists>x. RowActivate (sample_record ''B'' ''PT-B'') = RowActivate x \<or>
                RowActivate (sample_record ''B'' ''PT-B'') = CheckboxChange x))"
    by blast
  then have p: "phase_of sample_registry ?a = collecting \<and> showComparison ?a" by simp
  from sample_distinct run_ABC c d n reselect_B y p show ?thesis by blast
qed

text \<open>
  After comparing A and B, deselecting B leaves \<open>collecting\<close> with one record; selecting B
  again puts the table back on screen, from \<open>collecting\<close> and with no compare action.
\<close>

theorem comparison_from_collecting_counterexample:
  "run sample_registry
     [SwitchChange True, RowActivate (sample_record ''A'' ''PT-A''),
      RowActivate (sample_record ''B'' ''PT-B''), CompareClick,
      RowActivate (sample_record ''B'' ''PT-B'')] initial_dashboard
     = Some (\<lparr>comparisonMode = True, selectedIds = [''A''], showComparison = True\<rparr>, []) \<and>
   phase_of sample_registry
     \<lparr>comparisonMode = True, selectedIds = [''A''], showComparison = True\<rparr> = collecting \<and>
   handle sample_registry (RowActivate (sample_record ''B'' ''PT-B''))
     \<lparr>comparisonMode = True, selectedIds = [''A''], showComparison = True\<rparr>
     = Some (\<lparr>comparisonMode = True, selectedIds = [''A'', ''B''], showComparison = True\<rparr>, []) \<and>
   RowActivate (sample_record ''B'' ''PT-B'') \<noteq> CompareClick \<and>
   comparison_rendered sample_registry
     \<lparr>comparisonMode = True, selectedIds = [''A'', ''B''], showComparison = True\<rparr> \<and>
   phase_of sample_registry
     \<lparr>comparisonMode = True, selectedIds = [''A'', ''B''], showComparison = True\<rparr> = comparing"
  using run_AB_compare_B reselect_B phases_A_AB by simp

section \<open>Closing the comparison table\<close>

text \<open>
  C10. The close control of the comparison table, on screen for a registry with unique
  identifiers, hides the table and nothing else: comparison mode stays on and the
  selection is the same, the machine is \<open>ready\<close>, and the compare action brings back the
  state before, with the same table.
\<close>

theorem close_comparison_keeps_selection:
  assumes "distinct (map id' reg)" and "comparison_rendered reg s"
  shows "handle reg CloseComparisonClick s = Some (closeComparison s, []) \<and>
         comparisonMode (closeComparison s) \<and>
         selectedIds (closeComparison s) = selectedIds s \<and>
         \<not> comparison_rendered reg (closeComparison s) \<and>
         phase_of reg (closeComparison s) = ready \<and>
         handle reg CompareClick (closeComparison s) = Some (s, []) \<and>
         comparisonTable reg (compareSelected (closeComparison s)) = comparisonTable reg s"
proof -
  from comparison_rendered_two [OF assms] have m: "comparisonMode s" and two: "2 \<le> length (selectedIds s)"
    by simp_all
  from assms(2) have sh: "showComparison s" by (simp add: comparison_rendered_def)
  have again: "compareSelected (closeComparison s) = s"
    using sh by (simp add: compareSelected_def closeComparison_def)
  have a: "handle reg CloseComparisonClick s = Some (closeComparison s, [])"
    using assms(2) by simp
  have b: "\<not> comparison_rendered reg (closeComparison s)"
    by (simp add: comparison_rendered_def closeComparison_def)
  have c: "phase_of reg (closeComparison s) = ready"
    using m two by (simp add: phase_of_def comparison_rendered_def closeComparison_def)
  have d: "handle reg CompareClick (closeComparison s) = Some (s, [])"
    using m two again by (simp add: compare_button_rendered_def closeComparison_def)
  show ?thesis using a b c d m again by (simp add: closeComparison_def)
qed

theorem close_comparison_keeps_selection_witness:
  "distinct (map id' sample_registry) \<and>
   comparison_rendered sample_registry
     \<lparr>comparisonMode = True, selectedIds = [''B'', ''A''], showComparison = True\<rparr> \<and>
   handle sample_registry CloseComparisonClick
     \<lparr>comparisonMode = True, selectedIds = [''B'', ''A''], showComparison = True\<rparr>
     = Some (\<lparr>comparisonMode = True, selectedIds = [''B'', ''A''], showComparison = False\<rparr>, []) \<and>
   handle sample_registry CompareClick
     \<lparr>comparisonMode = True, selectedIds = [''B'', ''A''], showComparison = False\<rparr>
     = Some (\<lparr>comparisonMode = True, selectedIds = [''B'', ''A''], showComparison = True\<rparr>, [])"
proof -
  let ?s = "\<lparr>comparisonMode = True, selectedIds = [''B'', ''A''], showComparison = True\<rparr>"
  have c: "comparison_rendered sample_registry ?s"
    by (simp add: comparison_rendered_def selectedRecords_def sample_registry_def
        sample_record_def)
  have e: "closeComparison ?s =
      \<lparr>comparisonMode = True, selectedIds = [''B'', ''A''], showComparison = False\<rparr>"
    by (simp add: closeComparison_def)
  from close_comparison_keeps_selection [OF sample_distinct c]
  have "handle sample_registry CloseComparisonClick ?s = Some (closeComparison ?s, []) \<and>
        handle sample_registry CompareClick (closeComparison ?s) = Some (?s, [])" by blast
  then show ?thesis using sample_distinct c by (simp only: e) 
qed

section \<open>The detail panel's scroll lock\<close>

lemma setSelectedRecord_inv:
  "page_inv p \<Longrightarrow> mounted p \<or> v = None \<Longrightarrow> page_inv (setSelectedRecord v p)"
  by (auto simp: page_inv_def setSelectedRecord_def panel_effect_def panel_cleanup_def Let_def
      split: option.splits)

lemma unmount_inv: "page_inv p \<Longrightarrow> page_inv (unmount p)"
  by (auto simp: page_inv_def unmount_def panel_cleanup_def split: option.splits)

lemma page_handle_inv:
  "page_inv p \<Longrightarrow> page_handle e p = Some q \<Longrightarrow> page_inv q"
  by (cases e) (auto simp: onClose_def setSelectedRecord_inv unmount_inv split: if_splits)

lemma page_reachable_inv: "page_reachable p \<Longrightarrow> page_inv p"
proof (induction rule: page_reachable.induct)
  case page_init
  show ?case by (simp add: page_inv_def initial_page_def)
next
  case (page_step p e q)
  then show ?case by (blast intro: page_handle_inv)
qed

lemma onClose_restores:
  assumes "page_inv p" and "selectedRecord p \<noteq> None"
  shows "selectedRecord (onClose p) = None \<and> body_overflow (onClose p) = [] \<and>
         keydown_listeners (onClose p) = 0 \<and> mounted (onClose p)"
  using assms
  by (auto simp: page_inv_def onClose_def setSelectedRecord_def panel_cleanup_def Let_def
      split: option.splits)

lemma unmount_restores:
  assumes "page_inv p" and "selectedRecord p \<noteq> None"
  shows "selectedRecord (unmount p) = None \<and> body_overflow (unmount p) = [] \<and>
         keydown_listeners (unmount p) = 0 \<and> \<not> mounted (unmount p)"
  using assms
  by (auto simp: page_inv_def unmount_def panel_cleanup_def split: option.splits)

text \<open>
  C8. In every reachable state of the page the body's scroll is locked exactly while a
  record is open, and exactly then one \<^verbatim>\<open>keydown\<close> listener is attached; with no
  record open the body's overflow is what it was at the start. Opening a record locks the
  scroll and attaches the listener. Each way of closing an open record (the close control,
  the backdrop, the escape key, unmounting) leaves no record open, the overflow as at the
  start, and no listener.
\<close>

theorem scroll_lock_while_showing:
  assumes "page_reachable p"
  shows "(scroll_locked p \<longleftrightarrow> selectedRecord p \<noteq> None) \<and>
         body_overflow p =
           (if selectedRecord p = None then body_overflow initial_page else ''hidden'') \<and>
         keydown_listeners p = (if selectedRecord p = None then 0 else 1) \<and>
         (mounted p \<and> selectedRecord p = None \<longrightarrow>
            (\<exists>q. page_handle (OpenRecord r) p = Some q \<and> selectedRecord q = Some r \<and>
                 scroll_locked q \<and> keydown_listeners q = 1)) \<and>
         (selectedRecord p \<noteq> None \<longrightarrow>
            (\<forall>e \<in> {CloseClick, BackdropClick, DocumentKeyDown ''Escape'', Unmount}.
               \<exists>q. page_handle e p = Some q \<and> selectedRecord q = None \<and>
                   body_overflow q = body_overflow initial_page \<and>
                   keydown_listeners q = 0))"
proof -
  have inv: "page_inv p" using assms by (rule page_reachable_inv)
  have a: "(scroll_locked p \<longleftrightarrow> selectedRecord p \<noteq> None) \<and>
         body_overflow p =
           (if selectedRecord p = None then body_overflow initial_page else ''hidden'') \<and>
         keydown_listeners p = (if selectedRecord p = None then 0 else 1)"
    using inv by (auto simp: page_inv_def scroll_locked_def initial_page_def)
  have b: "\<exists>q. page_handle (OpenRecord r) p = Some q \<and> selectedRecord q = Some r \<and>
                 scroll_locked q \<and> keydown_listeners q = 1"
    if "mounted p" and "selectedRecord p = None"
    using that inv
    by (simp add: page_inv_def setSelectedRecord_def panel_effect_def scroll_locked_def)
  have c: "\<forall>e \<in> {CloseClick, BackdropClick, DocumentKeyDown ''Escape'', Unmount}.
               \<exists>q. page_handle e p = Some q \<and> selectedRecord q = None \<and>
                   body_overflow q = body_overflow initial_page \<and>
                   keydown_listeners q = 0"
    if s: "selectedRecord p \<noteq> None"
  proof -
    from inv s have m: "mounted p" and l: "keydown_listeners p > 0"
      by (auto simp: page_inv_def)
    from onClose_restores [OF inv s] unmount_restores [OF inv s] m l s
    show ?thesis by (simp add: initial_page_def)
  qed
  from a b c show ?thesis by blast
qed

lemma page_run_open:
  "page_reachable (setSelectedRecord (Some (sample_record ''A'' ''PT-A'')) initial_page)"
proof -
  have "page_handle (OpenRecord (sample_record ''A'' ''PT-A'')) initial_page =
      Some (setSelectedRecord (Some (sample_record ''A'' ''PT-A'')) initial_page)"
    by (simp add: initial_page_def)
  with page_init show ?thesis by (rule page_step)
qed

theorem scroll_lock_while_showing_witness:
  "page_reachable
     \<lparr>mounted = True, selectedRecord = Some (sample_record ''A'' ''PT-A''),
      body_overflow = ''hidden'', keydown_listeners = 1\<rparr> \<and>
   scroll_locked
     \<lparr>mounted = True, selectedRecord = Some (sample_record ''A'' ''PT-A''),
      body_overflow = ''hidden'', keydown_listeners = 1\<rparr> \<and>
   page_handle (DocumentKeyDown ''Escape'')
     \<lparr>mounted = True, selectedRecord = Some (sample_record ''A'' ''PT-A''),
      body_overflow = ''hidden'', keydown_listeners = 1\<rparr>
     = Some initial_page \<and>
   page_handle Unmount
     \<lparr>mounted = True, selectedRecord = Some (sample_record ''A'' ''PT-A''),
      body_overflow = ''hidden'', keydown_listeners = 1\<rparr>
     = Some \<lparr>mounted = False, selectedRecord = None, body_overflow = [],
          keydown_listeners = 0\<rparr>"
proof -
  let ?p = "\<lparr>mounted = True, selectedRecord = Some (sample_record ''A'' ''PT-A''),
      body_overflow = ''hidden'', keydown_listeners = 1\<rparr>"
  have e: "setSelectedRecord (Some (sample_record ''A'' ''PT-A'')) initial_page = ?p"
    by (simp add: setSelectedRecord_def initial_page_def panel_effect_def)
  have r: "page_reachable ?p" using page_run_open by (simp only: e)
  have s: "selectedRecord ?p \<noteq> None" by simp
  from scroll_lock_while_showing [OF r] s have l: "scroll_locked ?p" by blast
  have k: "page_handle (DocumentKeyDown ''Escape'') ?p = Some initial_page"
    by (simp add: onClose_def setSelectedRecord_def panel_cleanup_def initial_page_def)
  have u: "page_handle Unmount ?p = Some \<lparr>mounted = False, selectedRecord = None,
      body_overflow = [], keydown_listeners = 0\<rparr>"
    by (simp add: unmount_def panel_cleanup_def)
  from r l k u show ?thesis by blast
qed

section \<open>The duration formatter\<close>

text \<open>
  C9. On a missing date, and on a date string the host cannot read as a date, the
  formatter gives the placeholder; on a date it can read that is not after today it gives
  a label of the elapsed days, never the placeholder. The function is total.
\<close>

theorem duration_placeholder_on_invalid:
  "(surgery_date = None \<or> (\<exists>d. surgery_date = Some d \<and> parse_date d = None) \<longrightarrow>
      getImplantDuration parse_date today month_days year_days surgery_date = Placeholder) \<and>
   (parse_date d = Some day \<and> day \<le> today \<longrightarrow>
      getImplantDuration parse_date today month_days year_days (Some d) \<noteq> Placeholder \<and>
      (\<exists>u. getImplantDuration parse_date today month_days year_days (Some d) =
             Elapsed u (today - day) \<and> 0 \<le> today - day))"
  by (auto simp: getImplantDuration_def Let_def)

theorem duration_placeholder_on_invalid_witness:
  "(\<lambda>d. if d = ''2021-03-15'' then Some (18701::int) else None) ''not a date'' = None \<and>
   getImplantDuration (\<lambda>d. if d = ''2021-03-15'' then Some 18701 else None) 20394 30 365
     (Some ''not a date'') = Placeholder \<and>
   getImplantDuration (\<lambda>d. if d = ''2021-03-15'' then Some 18701 else None) 20394 30 365
     None = Placeholder \<and>
   getImplantDuration (\<lambda>d. if d = ''2021-03-15'' then Some 18701 else None) 20394 30 365
     (Some ''2021-03-15'') = Elapsed InYears 1693"
proof -
  let ?parse = "\<lambda>d. if d = ''2021-03-15'' then Some (18701::int) else None"
  have a: "?parse ''not a date'' = None" by simp
  have b: "?parse ''2021-03-15'' = Some 18701 \<and> (18701::int) \<le> 20394" by simp
  from duration_placeholder_on_invalid [of "Some ''not a date''" ?parse 20394 30 365] a
  have c: "getImplantDuration ?parse 20394 30 365 (Some ''not a date'') = Placeholder"
    by blast
  from duration_placeholder_on_invalid [of None ?parse 20394 30 365]
  have d: "getImplantDuration ?parse 20394 30 365 None = Placeholder" by blast
  have e: "getImplantDuration ?parse 20394 30 365 (Some ''2021-03-15'') = Elapsed InYears 1693"
    by (simp add: getImplantDuration_def)
  from a c d e show ?thesis by blast
qed

end
